theory Spec2Isabelle
  imports Main "HOL-Library.Word"
begin

section \<open>JavaScript values\<close>

text \<open>
  Strings are byte strings (the UTF-8 form of the JavaScript string); CR and LF are single
  bytes there and never part of a longer sequence. Numbers are restricted to integers
  (of magnitude below \<open>10^21\<close>, where JavaScript prints all digits), whose \<open>toString()\<close>
  is the decimal numeral; \<open>NaN\<close> and fractions are left out. An object is carried by the
  text its \<open>toString()\<close> method returns.
\<close>

datatype jsval =
    JUndefined
  | JNull
  | JBool bool
  | JNum int
  | JStr string
  | JObj string

datatype js_error = TypeError

definition CR :: char where
  "CR = CHR 0x0D"

definition LF :: char where
  "LF = CHR 0x0A"

fun truthy :: "jsval \<Rightarrow> bool" where
  "truthy JUndefined = False"
| "truthy JNull = False"
| "truthy (JBool b) = b"
| "truthy (JNum n) = (n \<noteq> 0)"
| "truthy (JStr t) = (t \<noteq> [])"
| "truthy (JObj t) = True"

definition digit_char :: "nat \<Rightarrow> char" where
  "digit_char d = char_of (48 + d)"

fun show_nat :: "nat \<Rightarrow> string" where
  "show_nat n =
     (if n < 10 then [digit_char n] else show_nat (n div 10) @ [digit_char (n mod 10)])"

declare show_nat.simps [simp del]

definition number_toString :: "int \<Rightarrow> string" where
  "number_toString n = (if n < 0 then CHR ''-'' # show_nat (nat (- n)) else show_nat (nat n))"

fun js_toString :: "jsval \<Rightarrow> js_error + string" where
  "js_toString JUndefined = Inl TypeError"
| "js_toString JNull = Inl TypeError"
| "js_toString (JBool b) = Inr (if b then ''true'' else ''false'')"
| "js_toString (JNum n) = Inr (number_toString n)"
| "js_toString (JStr t) = Inr t"
| "js_toString (JObj t) = Inr t"

section \<open>The default sanitizer\<close>

text \<open>
  Modelled from the spec: the default sanitizer of \<open>lib/sanitize\<close>, which is imported by
  \<open>Session.ts\<close> and is not among the source files. The spec: replace every occurrence of
  CR, LF, or CRLF with a single LF; then strip any LF characters from the end of the
  resulting string.
\<close>

fun replace_newlines :: "string \<Rightarrow> string" where
  "replace_newlines [] = []"
| "replace_newlines (c # cs) =
     (if c = CR then
        (case cs of
           [] \<Rightarrow> [LF]
         | d # ds \<Rightarrow> if d = LF then LF # replace_newlines ds else LF # replace_newlines cs)
      else c # replace_newlines cs)"

definition strip_trailing_newlines :: "string \<Rightarrow> string" where
  "strip_trailing_newlines t = rev (dropWhile (\<lambda>c. c = LF) (rev t))"

definition sanitize_default :: "string \<Rightarrow> string" where
  "sanitize_default t = strip_trailing_newlines (replace_newlines t)"

fun has_lf_run :: "string \<Rightarrow> bool" where
  "has_lf_run (c # d # cs) = ((c = LF \<and> d = LF) \<or> has_lf_run (d # cs))"
| "has_lf_run cs = False"

definition ends_with_lf :: "string \<Rightarrow> bool" where
  "ends_with_lf t = (case rev t of [] \<Rightarrow> False | c # cs \<Rightarrow> c = LF)"

section \<open>The session\<close>

datatype header_value = HNum int | HStr string | HArr "string list"

datatype effect =
    SetHeader string header_value
  | SetStatusCode int
  | FlushHeaders
  | Write string
  | Emit string

datatype retry_option = RetryUnset | RetryNull | RetryMs int

record SessionOptions =
  opt_serializer :: "(jsval \<Rightarrow> string) option"
  opt_sanitizer :: "(string \<Rightarrow> string) option"
  opt_trustClientEventId :: "bool option"
  opt_retry :: retry_option
  opt_statusCode :: "int option"
  opt_headers :: "(string \<times> header_value option) list option"

text \<open>
  The session with what it borrows: the request's \<open>last-event-id\<close> header, the pending
  \<open>setImmediate\<close> callback, the bytes the random generator will return, and the log of
  everything done to the response and every notification emitted, in order. The serializer
  and the sanitizer are taken at their declared types \<open>SerializerFunction\<close> and
  \<open>SanitizerFunction\<close>: they return a string for every argument. The response is a log:
  what the transport itself does with a call (sending, failing) is outside the session.
\<close>

record session =
  lastId :: string
  serialize :: "jsval \<Rightarrow> string"
  sanitize :: "string \<Rightarrow> string"
  trustClientEventId :: bool
  initialRetry :: "int option"
  statusCode :: int
  headers :: "(string \<times> header_value option) list"
  req_last_event_id :: "string option"
  immediate_pending :: bool
  random_pool :: "nat \<Rightarrow> 8 word"
  random_pos :: nat
  out :: "effect list"

definition nullish_default :: "'a option \<Rightarrow> 'a \<Rightarrow> 'a" where
  "nullish_default v d = (case v of None \<Rightarrow> d | Some x \<Rightarrow> x)"

text \<open>
  The constructor. The two library defaults (\<open>lib/serialize\<close>, \<open>lib/sanitize\<close>) are
  parameters; the listener for the request's \<open>close\<close> is \<open>onDisconnected\<close> in \<open>step\<close>
  below, and \<open>setImmediate(this.onConnected)\<close> is the flag \<open>immediate_pending\<close>.
\<close>

definition Session_new ::
  "(jsval \<Rightarrow> string) \<Rightarrow> (string \<Rightarrow> string) \<Rightarrow> string option \<Rightarrow> (nat \<Rightarrow> 8 word) \<Rightarrow>
   SessionOptions \<Rightarrow> session" where
  "Session_new lib_serialize lib_sanitize req_id pool options =
     \<lparr> lastId = [],
       serialize = nullish_default (opt_serializer options) lib_serialize,
       sanitize = nullish_default (opt_sanitizer options) lib_sanitize,
       trustClientEventId = nullish_default (opt_trustClientEventId options) True,
       initialRetry =
         (case opt_retry options of
            RetryNull \<Rightarrow> None
          | RetryUnset \<Rightarrow> Some 2000
          | RetryMs n \<Rightarrow> Some n),
       statusCode = nullish_default (opt_statusCode options) 200,
       headers = nullish_default (opt_headers options) [],
       req_last_event_id = req_id,
       immediate_pending = True,
       random_pool = pool,
       random_pos = 0,
       out = [] \<rparr>"

definition log :: "effect \<Rightarrow> session \<Rightarrow> session" where
  "log e s = s\<lparr>out := out s @ [e]\<rparr>"

definition emit :: "string \<Rightarrow> session \<Rightarrow> session" where
  "emit name s = log (Emit name) s"

definition writeField :: "string \<Rightarrow> string \<Rightarrow> session \<Rightarrow> session" where
  "writeField name v s = log (Write (name @ '':'' @ sanitize s v @ [LF])) s"

definition dispatch :: "session \<Rightarrow> session" where
  "dispatch s = log (Write [LF]) s"

definition event :: "string \<Rightarrow> session \<Rightarrow> session" where
  "event type s = writeField ''event'' type s"

definition data :: "jsval \<Rightarrow> session \<Rightarrow> session" where
  "data d s = writeField ''data'' (serialize s d) s"

text \<open>The method \<open>id\<close>; the name \<open>id\<close> is the identity function of HOL.\<close>

definition id_field :: "string option \<Rightarrow> session \<Rightarrow> session" where
  "id_field i s =
     (let stringifed = (case i of None \<Rightarrow> [] | Some t \<Rightarrow> if t \<noteq> [] then t else [])
      in (writeField ''id'' stringifed s)\<lparr>lastId := stringifed\<rparr>)"

definition retry :: "int \<Rightarrow> session \<Rightarrow> session" where
  "retry time s = writeField ''retry'' (number_toString time) s"

definition comment :: "string option \<Rightarrow> session \<Rightarrow> session" where
  "comment text s = writeField [] (nullish_default text []) s"

subsection \<open>Random identifiers\<close>

definition hex_digit :: "nat \<Rightarrow> char" where
  "hex_digit d = ''0123456789abcdef'' ! d"

definition hex_byte :: "8 word \<Rightarrow> string" where
  "hex_byte b = [hex_digit (unat b div 16), hex_digit (unat b mod 16)]"

definition toString_hex :: "8 word list \<Rightarrow> string" where
  "toString_hex bs = concat (map hex_byte bs)"

definition randomBytes :: "nat \<Rightarrow> session \<Rightarrow> 8 word list \<times> session" where
  "randomBytes n s =
     (map (random_pool s) [random_pos s ..< random_pos s + n],
      s\<lparr>random_pos := random_pos s + n\<rparr>)"


subsection \<open>push\<close>

text \<open>
  An omitted second argument is \<open>JUndefined\<close>, as \<open>typeof data === "undefined"\<close> sees it.
  \<open>toString()\<close> of \<open>null\<close> or \<open>undefined\<close> throws, before anything is written.
\<close>

definition push_arguments :: "jsval \<Rightarrow> jsval \<Rightarrow> js_error + string \<times> jsval" where
  "push_arguments eventOrData d =
     (if truthy eventOrData \<and> d = JUndefined then Inr (''message'', eventOrData)
      else (case js_toString eventOrData of
              Inl x \<Rightarrow> Inl x
            | Inr name \<Rightarrow> Inr (name, d)))"

definition push :: "jsval \<Rightarrow> jsval \<Rightarrow> session \<Rightarrow> js_error + session" where
  "push eventOrData d s =
     (case push_arguments eventOrData d of
        Inl x \<Rightarrow> Inl x
      | Inr (eventName, rawData) \<Rightarrow>
          (case randomBytes 4 s of
             (bytes, s1) \<Rightarrow>
               Inr (dispatch (data rawData (id_field (Some (toString_hex bytes))
                      (event eventName s1))))))"

subsection \<open>Lifecycle\<close>

definition setHeaders :: "(string \<times> header_value option) list \<Rightarrow> session \<Rightarrow> session" where
  "setHeaders hs s =
     fold (\<lambda>(name, v). log (SetHeader name (nullish_default v (HStr [])))) hs s"

definition onConnected :: "session \<Rightarrow> session" where
  "onConnected s =
     (let s1 = (if trustClientEventId s
                then s\<lparr>lastId := nullish_default (req_last_event_id s) []\<rparr> else s);
          s2 = setHeaders (headers s1) s1;
          s3 = log (SetStatusCode (statusCode s2)) s2;
          s4 = log (SetHeader ''Content-Type'' (HStr ''text/event-stream'')) s3;
          s5 = log (SetHeader ''Cache-Control'' (HStr ''no-cache, no-transform'')) s4;
          s6 = log (SetHeader ''Connection'' (HStr ''keep-alive'')) s5;
          s7 = log FlushHeaders s6;
          s8 = (case initialRetry s7 of None \<Rightarrow> s7 | Some n \<Rightarrow> dispatch (retry n s7))
      in emit ''connected'' s8)"

definition onDisconnected :: "session \<Rightarrow> session" where
  "onDisconnected s = emit ''disconnected'' s"

text \<open>
  What can happen to a session after construction: the scheduled immediate runs (once),
  the request closes, or the caller invokes a method. A call that throws leaves the
  session as it was: \<open>push\<close> throws before its first effect.
\<close>

datatype call =
    CEvent string
  | CData jsval
  | CId "string option"
  | CRetry int
  | CComment "string option"
  | CDispatch
  | CPush jsval jsval

datatype input = Immediate | ReqClose | Caller call

fun apply_call :: "call \<Rightarrow> session \<Rightarrow> js_error + session" where
  "apply_call (CEvent t) s = Inr (event t s)"
| "apply_call (CData d) s = Inr (data d s)"
| "apply_call (CId i) s = Inr (id_field i s)"
| "apply_call (CRetry n) s = Inr (retry n s)"
| "apply_call (CComment t) s = Inr (comment t s)"
| "apply_call CDispatch s = Inr (dispatch s)"
| "apply_call (CPush e d) s = push e d s"

fun step :: "input \<Rightarrow> session \<Rightarrow> session" where
  "step Immediate s =
     (if immediate_pending s then onConnected (s\<lparr>immediate_pending := False\<rparr>) else s)"
| "step ReqClose s = onDisconnected s"
| "step (Caller c) s = (case apply_call c s of Inl e \<Rightarrow> s | Inr s' \<Rightarrow> s')"

definition run :: "input list \<Rightarrow> session \<Rightarrow> session" where
  "run ins s = fold step ins s"

fun is_caller :: "input \<Rightarrow> bool" where
  "is_caller (Caller c) = True"
| "is_caller i = False"

fun calls_id :: "input \<Rightarrow> bool" where
  "calls_id (Caller (CId i)) = True"
| "calls_id (Caller (CPush e d)) = True"
| "calls_id i = False"

subsection \<open>stream\<close>

text \<open>
  \<open>stream\<close> attaches its four listeners and returns the pending promise; \<open>notify\<close> is
  what the listeners do when the producer emits, and \<open>stream_run\<close> is a producer emitting
  a sequence of notifications. The producer is what it emits, in order. \<open>Buffer.prototype.toString\<close> belongs to the
  runtime and is a parameter. The \<open>data\<close> listener is attached with \<open>on\<close> and stays; the
  listeners for \<open>end\<close>, \<open>close\<close> and \<open>error\<close> are attached with \<open>once\<close> and are gone after
  their first call. A promise settles once: a later \<open>resolve\<close> or \<open>reject\<close> does nothing.
\<close>

datatype chunk = BufferChunk "8 word list" | StringChunk string

datatype 'e producer_event = PData chunk | PEnd | PClose | PError 'e

datatype 'e completion = Pending | Resolved bool | Rejected 'e

record StreamOptions =
  opt_event :: "string option"

record 'e stream_state =
  st_session :: session
  st_event :: string
  st_completion :: "'e completion"
  end_listener :: bool
  close_listener :: bool
  error_listener :: bool

definition settle :: "'e completion \<Rightarrow> 'e completion \<Rightarrow> 'e completion" where
  "settle outcome c = (case c of Pending \<Rightarrow> outcome | Resolved b \<Rightarrow> c | Rejected e \<Rightarrow> c)"

definition chunk_text :: "(8 word list \<Rightarrow> string) \<Rightarrow> chunk \<Rightarrow> string" where
  "chunk_text buffer_toString c =
     (case c of BufferChunk b \<Rightarrow> buffer_toString b | StringChunk t \<Rightarrow> t)"

definition stream :: "StreamOptions \<Rightarrow> session \<Rightarrow> 'e stream_state" where
  "stream options s =
     \<lparr> st_session = s,
       st_event = nullish_default (opt_event options) ''stream'',
       st_completion = Pending,
       end_listener = True,
       close_listener = True,
       error_listener = True \<rparr>"

fun notify ::
  "(8 word list \<Rightarrow> string) \<Rightarrow> 'e producer_event \<Rightarrow> 'e stream_state \<Rightarrow>
   js_error + 'e stream_state" where
  "notify buffer_toString (PData c) st =
     (case push (JStr (st_event st)) (JStr (chunk_text buffer_toString c)) (st_session st) of
        Inl x \<Rightarrow> Inl x
      | Inr s' \<Rightarrow> Inr (st\<lparr>st_session := s'\<rparr>))"
| "notify buffer_toString PEnd st =
     Inr (if end_listener st
          then st\<lparr>end_listener := False,
                  st_completion := settle (Resolved True) (st_completion st)\<rparr>
          else st)"
| "notify buffer_toString PClose st =
     Inr (if close_listener st
          then st\<lparr>close_listener := False,
                  st_completion := settle (Resolved True) (st_completion st)\<rparr>
          else st)"
| "notify buffer_toString (PError e) st =
     Inr (if error_listener st
          then st\<lparr>error_listener := False,
                  st_completion := settle (Rejected e) (st_completion st)\<rparr>
          else st)"

fun stream_run ::
  "(8 word list \<Rightarrow> string) \<Rightarrow> 'e producer_event list \<Rightarrow> 'e stream_state \<Rightarrow>
   js_error + 'e stream_state" where
  "stream_run buffer_toString [] st = Inr st"
| "stream_run buffer_toString (ev # evs) st =
     (case notify buffer_toString ev st of
        Inl x \<Rightarrow> Inl x
      | Inr st' \<Rightarrow> stream_run buffer_toString evs st')"

fun is_data :: "'e producer_event \<Rightarrow> bool" where
  "is_data (PData c) = True"
| "is_data ev = False"

fun chunks :: "'e producer_event list \<Rightarrow> chunk list" where
  "chunks [] = []"
| "chunks (PData c # evs) = c # chunks evs"
| "chunks (ev # evs) = chunks evs"

text \<open>What a caller observes of a run of the adapter.\<close>

definition stream_output :: "js_error + 'e stream_state \<Rightarrow> effect list" where
  "stream_output r = (case r of Inl x \<Rightarrow> [] | Inr st \<Rightarrow> out (st_session st))"

definition stream_completion :: "js_error + 'e stream_state \<Rightarrow> 'e completion option" where
  "stream_completion r = (case r of Inl x \<Rightarrow> None | Inr st \<Rightarrow> Some (st_completion st))"

section \<open>What is expected on the wire\<close>

text \<open>
  The frames of one dispatched event, of the header phase of the connection, and of the
  automatic retry, written down as lists of effects to compare the operations with.
\<close>

definition field_line :: "session \<Rightarrow> string \<Rightarrow> string \<Rightarrow> effect" where
  "field_line s name v = Write (name @ '':'' @ sanitize s v @ [LF])"

definition event_frames :: "session \<Rightarrow> string \<Rightarrow> string \<Rightarrow> jsval \<Rightarrow> effect list" where
  "event_frames s name ident payload =
     [field_line s ''event'' name, field_line s ''id'' ident,
      field_line s ''data'' (serialize s payload), Write [LF]]"

definition random_id :: "session \<Rightarrow> nat \<Rightarrow> string" where
  "random_id s pos = toString_hex (map (random_pool s) [pos ..< pos + 4])"

fun stream_frames ::
  "session \<Rightarrow> (8 word list \<Rightarrow> string) \<Rightarrow> string \<Rightarrow> nat \<Rightarrow> chunk list \<Rightarrow> effect list" where
  "stream_frames s buffer_toString name pos [] = []"
| "stream_frames s buffer_toString name pos (c # cs) =
     event_frames s name (random_id s pos) (JStr (chunk_text buffer_toString c))
     @ stream_frames s buffer_toString name (pos + 4) cs"

definition header_effects :: "session \<Rightarrow> effect list" where
  "header_effects s =
     map (\<lambda>(name, v). SetHeader name (nullish_default v (HStr []))) (headers s)
     @ [SetStatusCode (statusCode s),
        SetHeader ''Content-Type'' (HStr ''text/event-stream''),
        SetHeader ''Cache-Control'' (HStr ''no-cache, no-transform''),
        SetHeader ''Connection'' (HStr ''keep-alive''),
        FlushHeaders]"

definition retry_effects :: "session \<Rightarrow> effect list" where
  "retry_effects s =
     (case initialRetry s of
        None \<Rightarrow> []
      | Some n \<Rightarrow> [field_line s ''retry'' (number_toString n), Write [LF]])"

fun is_write :: "effect \<Rightarrow> bool" where
  "is_write (Write t) = True"
| "is_write e = False"

definition written :: "effect list \<Rightarrow> effect list" where
  "written es = filter is_write es"

text \<open>What no operation changes: the configuration and the borrowed handles.\<close>

definition same_config :: "session \<Rightarrow> session \<Rightarrow> bool" where
  "same_config s s' =
     (serialize s' = serialize s \<and> sanitize s' = sanitize s
      \<and> trustClientEventId s' = trustClientEventId s \<and> initialRetry s' = initialRetry s
      \<and> statusCode s' = statusCode s \<and> headers s' = headers s
      \<and> req_last_event_id s' = req_last_event_id s \<and> random_pool s' = random_pool s)"

section \<open>A concrete session\<close>

definition default_options :: SessionOptions where
  "default_options =
     \<lparr> opt_serializer = None, opt_sanitizer = None, opt_trustClientEventId = None,
       opt_retry = RetryUnset, opt_statusCode = None, opt_headers = None \<rparr>"

fun example_serialize :: "jsval \<Rightarrow> string" where
  "example_serialize JUndefined = ''undefined''"
| "example_serialize JNull = ''null''"
| "example_serialize (JBool b) = (if b then ''true'' else ''false'')"
| "example_serialize (JNum n) = number_toString n"
| "example_serialize (JStr t) = CHR 0x22 # t @ [CHR 0x22]"
| "example_serialize (JObj t) = t"

definition example_pool :: "nat \<Rightarrow> 8 word" where
  "example_pool i = of_nat (37 * i + 11)"

definition example_session :: session where
  "example_session =
     Session_new example_serialize sanitize_default (Some ''42'') example_pool default_options"

definition example_untrusting :: session where
  "example_untrusting =
     Session_new example_serialize sanitize_default (Some ''42'') example_pool
       (default_options\<lparr>opt_trustClientEventId := Some False, opt_retry := RetryMs 5000\<rparr>)"

definition example_decode :: "8 word list \<Rightarrow> string" where
  "example_decode b = map (\<lambda>w. char_of (unat w)) b"

section \<open>The default sanitizer: properties\<close>

lemma replace_newlines_no_CR: "CR \<notin> set (replace_newlines t)"
  by (induction t rule: replace_newlines.induct) (auto simp: CR_def LF_def split: list.splits)

lemma set_strip_trailing_newlines: "set (strip_trailing_newlines t) \<subseteq> set t"
  unfolding strip_trailing_newlines_def using set_dropWhileD by fastforce

lemma strip_trailing_newlines_not_ends: "\<not> ends_with_lf (strip_trailing_newlines t)"
proof (cases "dropWhile (\<lambda>c. c = LF) (rev t)")
  case Nil
  show ?thesis unfolding ends_with_lf_def strip_trailing_newlines_def rev_rev_ident Nil
    by simp
next
  case (Cons c cs)
  then have "c \<noteq> LF" using hd_dropWhile [of "\<lambda>c. c = LF" "rev t"] by auto
  with Cons show ?thesis by (simp add: ends_with_lf_def strip_trailing_newlines_def)
qed

lemma CR_neq_LF [simp]: "CR \<noteq> LF" "LF \<noteq> CR"
  by (simp_all add: CR_def LF_def)

lemma filter_replace_newlines:
  "filter (\<lambda>c. c \<noteq> CR \<and> c \<noteq> LF) (replace_newlines t) = filter (\<lambda>c. c \<noteq> CR \<and> c \<noteq> LF) t"
proof (induction t rule: replace_newlines.induct)
  case 1
  show ?case by simp
next
  case (2 c cs)
  show ?case
  proof (cases "c = CR")
    case True
    note c = this
    show ?thesis
    proof (cases cs)
      case Nil
      with c show ?thesis by simp
    next
      case (Cons d ds)
      show ?thesis
      proof (cases "d = LF")
        case True
        with c Cons 2(1) show ?thesis by simp
      next
        case False
        with c Cons 2(2) show ?thesis by simp
      qed
    qed
  next
    case False
    with 2(3) show ?thesis by simp
  qed
qed

lemma filter_dropWhile_LF:
  "filter (\<lambda>c. c \<noteq> CR \<and> c \<noteq> LF) (dropWhile (\<lambda>c. c = LF) u)
     = filter (\<lambda>c. c \<noteq> CR \<and> c \<noteq> LF) u"
  by (induction u) simp_all

lemma filter_strip_trailing_newlines:
  "filter (\<lambda>c. c \<noteq> CR \<and> c \<noteq> LF) (strip_trailing_newlines t) = filter (\<lambda>c. c \<noteq> CR \<and> c \<noteq> LF) t"
  unfolding strip_trailing_newlines_def
  by (simp only: rev_filter [symmetric] filter_dropWhile_LF rev_rev_ident)

text \<open>
  C1, as the claim states it, fails: two line breaks in a row are each replaced by one LF,
  so a run of two LF stays inside the result.
\<close>

theorem sanitize_default_keeps_lf_run:
  "sanitize_default [CHR ''a'', LF, LF, CHR ''b''] = [CHR ''a'', LF, LF, CHR ''b'']
   \<and> has_lf_run (sanitize_default [CHR ''a'', LF, LF, CHR ''b''])"
  by (simp add: sanitize_default_def strip_trailing_newlines_def CR_def LF_def)

text \<open>
  C1 (amended): for every input string the default sanitizer replaces each CR, LF or CRLF
  by one LF and then strips the trailing LF characters; the result contains no CR and
  does not end in LF, and every character that is neither CR nor LF is kept, in order.
\<close>

theorem sanitize_default_no_CR_no_trailing_LF:
  "sanitize_default v = strip_trailing_newlines (replace_newlines v)
   \<and> CR \<notin> set (sanitize_default v)
   \<and> \<not> ends_with_lf (sanitize_default v)
   \<and> filter (\<lambda>c. c \<noteq> CR \<and> c \<noteq> LF) (sanitize_default v) = filter (\<lambda>c. c \<noteq> CR \<and> c \<noteq> LF) v"
proof -
  have "sanitize_default v = strip_trailing_newlines (replace_newlines v)"
    by (simp only: sanitize_default_def)
  moreover have "CR \<notin> set (sanitize_default v)"
    unfolding sanitize_default_def
    using set_strip_trailing_newlines [of "replace_newlines v"] replace_newlines_no_CR [of v]
    by blast
  moreover have "\<not> ends_with_lf (sanitize_default v)"
    unfolding sanitize_default_def by (rule strip_trailing_newlines_not_ends)
  moreover have "filter (\<lambda>c. c \<noteq> CR \<and> c \<noteq> LF) (sanitize_default v)
      = filter (\<lambda>c. c \<noteq> CR \<and> c \<noteq> LF) v"
    unfolding sanitize_default_def
    by (simp only: filter_strip_trailing_newlines filter_replace_newlines)
  ultimately show ?thesis by blast
qed

section \<open>Basic facts about the operations\<close>

lemma log_simps [simp]:
  "out (log e s) = out s @ [e]"
  "lastId (log e s) = lastId s"
  "immediate_pending (log e s) = immediate_pending s"
  "random_pos (log e s) = random_pos s"
  "same_config s (log e s)"
  by (simp_all add: log_def same_config_def)

lemma same_config_refl [simp]: "same_config s s"
  by (simp add: same_config_def)

lemma same_config_trans: "same_config a b \<Longrightarrow> same_config b c \<Longrightarrow> same_config a c"
  by (simp add: same_config_def)

lemma same_config_sym: "same_config a b \<Longrightarrow> same_config b a"
  by (simp add: same_config_def)

lemma field_line_cong: "same_config s s' \<Longrightarrow> field_line s' name v = field_line s name v"
  by (simp add: field_line_def same_config_def)

lemma event_frames_cong:
  "same_config s s' \<Longrightarrow> event_frames s' name i p = event_frames s name i p"
  by (simp add: event_frames_def same_config_def field_line_def)

lemma random_id_cong: "same_config s s' \<Longrightarrow> random_id s' pos = random_id s pos"
  by (simp add: random_id_def same_config_def)

lemma writeField_simps [simp]:
  "out (writeField name v s) = out s @ [field_line s name v]"
  "lastId (writeField name v s) = lastId s"
  "immediate_pending (writeField name v s) = immediate_pending s"
  "random_pos (writeField name v s) = random_pos s"
  "same_config s (writeField name v s)"
  by (simp_all add: writeField_def field_line_def)

lemma dispatch_simps [simp]:
  "out (dispatch s) = out s @ [Write [LF]]"
  "lastId (dispatch s) = lastId s"
  "immediate_pending (dispatch s) = immediate_pending s"
  "random_pos (dispatch s) = random_pos s"
  "same_config s (dispatch s)"
  by (simp_all add: dispatch_def)

lemma event_simps [simp]:
  "out (event t s) = out s @ [field_line s ''event'' t]"
  "lastId (event t s) = lastId s"
  "immediate_pending (event t s) = immediate_pending s"
  "random_pos (event t s) = random_pos s"
  "same_config s (event t s)"
  by (simp_all add: event_def)

lemma data_simps [simp]:
  "out (data d s) = out s @ [field_line s ''data'' (serialize s d)]"
  "lastId (data d s) = lastId s"
  "immediate_pending (data d s) = immediate_pending s"
  "random_pos (data d s) = random_pos s"
  "same_config s (data d s)"
  by (simp_all add: data_def)

lemma retry_simps [simp]:
  "out (retry n s) = out s @ [field_line s ''retry'' (number_toString n)]"
  "lastId (retry n s) = lastId s"
  "immediate_pending (retry n s) = immediate_pending s"
  "random_pos (retry n s) = random_pos s"
  "same_config s (retry n s)"
  by (simp_all add: retry_def)

lemma comment_simps [simp]:
  "out (comment t s) = out s @ [field_line s [] (nullish_default t [])]"
  "lastId (comment t s) = lastId s"
  "immediate_pending (comment t s) = immediate_pending s"
  "random_pos (comment t s) = random_pos s"
  "same_config s (comment t s)"
  by (simp_all add: comment_def)

lemma id_field_simps [simp]:
  "out (id_field i s) = out s @ [field_line s ''id'' (nullish_default i [])]"
  "lastId (id_field i s) = nullish_default i []"
  "immediate_pending (id_field i s) = immediate_pending s"
  "random_pos (id_field i s) = random_pos s"
  "same_config s (id_field i s)"
  by (simp_all add: id_field_def Let_def nullish_default_def writeField_def field_line_def
      log_def same_config_def split: option.splits)

lemma randomBytes_simps [simp]:
  "fst (randomBytes n s) = map (random_pool s) [random_pos s ..< random_pos s + n]"
  "out (snd (randomBytes n s)) = out s"
  "lastId (snd (randomBytes n s)) = lastId s"
  "immediate_pending (snd (randomBytes n s)) = immediate_pending s"
  "random_pos (snd (randomBytes n s)) = random_pos s + n"
  "same_config s (snd (randomBytes n s))"
  by (simp_all add: randomBytes_def same_config_def)

lemma push_frames:
  assumes "push_arguments e d = Inr (name, payload)"
  shows "\<exists>s'. push e d s = Inr s'
           \<and> out s' = out s @ event_frames s name (random_id s (random_pos s)) payload
           \<and> lastId s' = random_id s (random_pos s)
           \<and> random_pos s' = random_pos s + 4
           \<and> immediate_pending s' = immediate_pending s
           \<and> same_config s s'"
proof -
  obtain bytes s1 where r: "randomBytes 4 s = (bytes, s1)" by (cases "randomBytes 4 s")
  have b: "bytes = map (random_pool s) [random_pos s ..< random_pos s + 4]"
    using randomBytes_simps(1) [where n = 4 and s = s] r by simp
  have s1: "out s1 = out s" "random_pos s1 = random_pos s + 4"
    "immediate_pending s1 = immediate_pending s" "same_config s s1"
    using randomBytes_simps(2,4,5,6) [where n = 4 and s = s] r by simp_all
  let ?s' = "dispatch (data payload (id_field (Some (toString_hex bytes)) (event name s1)))"
  have p: "push e d s = Inr ?s'"
    using assms r by (simp add: push_def push_arguments_def)
  have c2: "same_config s1 (event name s1)" by simp
  have c3: "same_config s1 (id_field x (event name s1))" for x
    by (rule same_config_trans [OF c2]) simp
  have c4: "same_config s1 (data payload (id_field x (event name s1)))" for x
    by (rule same_config_trans [OF c3 [of x]]) simp
  have c5: "same_config s1 ?s'"
    by (rule same_config_trans [OF c4 [of "Some (toString_hex bytes)"]]) simp
  have c: "same_config s ?s'" by (rule same_config_trans [OF s1(4) c5])
  have fl: "field_line s1 = field_line s"
    using s1(4) by (simp add: fun_eq_iff field_line_cong)
  have ser: "serialize (id_field x (event name s1)) = serialize s" for x
    using same_config_trans [OF s1(4) c3] by (simp add: same_config_def)
  have fl2: "field_line (event name s1) = field_line s"
    using same_config_trans [OF s1(4) c2] by (simp add: fun_eq_iff field_line_cong)
  have fl3: "field_line (id_field x (event name s1)) = field_line s" for x
    using same_config_trans [OF s1(4) c3] by (simp add: fun_eq_iff field_line_cong)
  have o: "out ?s' = out s @ event_frames s name (random_id s (random_pos s)) payload"
    by (simp add: s1 fl fl2 fl3 ser event_frames_def random_id_def b nullish_default_def)
  have l: "lastId ?s' = random_id s (random_pos s)"
    by (simp add: random_id_def b nullish_default_def)
  have rp: "random_pos ?s' = random_pos s + 4" by (simp add: s1)
  have ip: "immediate_pending ?s' = immediate_pending s" by (simp add: s1)
  from p o l rp ip c show ?thesis by blast
qed

section \<open>Hexadecimal identifiers\<close>










section \<open>Lifecycle facts\<close>

lemma setHeaders_eq:
  "setHeaders hs s =
     s\<lparr>out := out s @ map (\<lambda>(name, v). SetHeader name (nullish_default v (HStr []))) hs\<rparr>"
proof (induction hs arbitrary: s)
  case Nil
  show ?case by (simp add: setHeaders_def)
next
  case (Cons h hs)
  have "setHeaders (h # hs) s
      = setHeaders hs (log (SetHeader (fst h) (nullish_default (snd h) (HStr []))) s)"
    by (simp add: setHeaders_def split_beta)
  then show ?case by (simp add: Cons.IH log_def split_beta)
qed

lemma onConnected_simps:
  "out (onConnected s) = out s @ header_effects s @ retry_effects s @ [Emit ''connected'']"
  "lastId (onConnected s) =
     (if trustClientEventId s then nullish_default (req_last_event_id s) [] else lastId s)"
  "immediate_pending (onConnected s) = immediate_pending s"
  "random_pos (onConnected s) = random_pos s"
  "same_config s (onConnected s)"
  by (simp_all add: onConnected_def Let_def setHeaders_eq emit_def log_def header_effects_def
      retry_effects_def dispatch_def retry_def writeField_def field_line_def same_config_def
      split: option.splits)

lemma onDisconnected_simps [simp]:
  "out (onDisconnected s) = out s @ [Emit ''disconnected'']"
  "lastId (onDisconnected s) = lastId s"
  "immediate_pending (onDisconnected s) = immediate_pending s"
  "random_pos (onDisconnected s) = random_pos s"
  "same_config s (onDisconnected s)"
  by (simp_all add: onDisconnected_def emit_def)

lemma header_effects_cong: "same_config s s' \<Longrightarrow> header_effects s' = header_effects s"
  by (simp add: header_effects_def same_config_def)

lemma retry_effects_cong: "same_config s s' \<Longrightarrow> retry_effects s' = retry_effects s"
  by (auto simp: retry_effects_def same_config_def field_line_def split: option.splits)

lemma step_Immediate_simps:
  "out (step Immediate s) =
     (if immediate_pending s
      then out s @ header_effects s @ retry_effects s @ [Emit ''connected''] else out s)"
  "lastId (step Immediate s) =
     (if immediate_pending s \<and> trustClientEventId s
      then nullish_default (req_last_event_id s) [] else lastId s)"
  "immediate_pending (step Immediate s) = False"
  "random_pos (step Immediate s) = random_pos s"
  "same_config s (step Immediate s)"
proof -
  let ?t = "s\<lparr>immediate_pending := False\<rparr>"
  have c: "same_config s ?t" by (simp add: same_config_def)
  have h: "header_effects ?t = header_effects s" "retry_effects ?t = retry_effects s"
    using c by (simp_all add: header_effects_cong retry_effects_cong)
  show "out (step Immediate s) =
     (if immediate_pending s
      then out s @ header_effects s @ retry_effects s @ [Emit ''connected''] else out s)"
    by (simp add: onConnected_simps(1) h)
  show "lastId (step Immediate s) =
     (if immediate_pending s \<and> trustClientEventId s
      then nullish_default (req_last_event_id s) [] else lastId s)"
    by (simp add: onConnected_simps(2))
  show "immediate_pending (step Immediate s) = False"
    by (simp add: onConnected_simps(3))
  show "random_pos (step Immediate s) = random_pos s"
    by (simp add: onConnected_simps(4))
  show "same_config s (step Immediate s)"
    using same_config_trans [OF c onConnected_simps(5) [of ?t]] by simp
qed

lemma push_total:
  "push e d s = Inl TypeError \<and> push_arguments e d = Inl TypeError
   \<or> (\<exists>name payload s'. push_arguments e d = Inr (name, payload) \<and> push e d s = Inr s')"
proof (cases "push_arguments e d")
  case (Inl x)
  then show ?thesis by (cases x) (simp add: push_def)
next
  case (Inr np)
  then obtain name payload where "push_arguments e d = Inr (name, payload)" by (cases np) simp
  then show ?thesis using push_frames [of e d name payload s] by blast
qed

lemma apply_call_effects:
  "apply_call c s = Inr s' \<Longrightarrow>
     (\<exists>ws. out s' = out s @ ws \<and> list_all is_write ws)
     \<and> immediate_pending s' = immediate_pending s
     \<and> same_config s s'
     \<and> (\<not> calls_id (Caller c) \<longrightarrow> lastId s' = lastId s)"
proof (cases c)
  case (CPush e d)
  assume a: "apply_call c s = Inr s'"
  then have p: "push e d s = Inr s'" using CPush by simp
  then obtain name payload where t: "push_arguments e d = Inr (name, payload)"
    using push_total [of e d s] by auto
  from push_frames [OF t, of s] p show ?thesis
    by (auto simp: CPush event_frames_def field_line_def)
qed (auto simp: field_line_def)

lemma step_Caller_effects:
  "(\<exists>ws. out (step (Caller c) s) = out s @ ws \<and> list_all is_write ws)
   \<and> immediate_pending (step (Caller c) s) = immediate_pending s
   \<and> same_config s (step (Caller c) s)
   \<and> (\<not> calls_id (Caller c) \<longrightarrow> lastId (step (Caller c) s) = lastId s)"
proof (cases "apply_call c s")
  case (Inl x)
  then show ?thesis by simp
next
  case (Inr s')
  from apply_call_effects [OF Inr] Inr show ?thesis by simp
qed

section \<open>Runs of a session\<close>

lemma run_simps [simp]:
  "run [] s = s"
  "run (i # ins) s = run ins (step i s)"
  "run (xs @ ys) s = run ys (run xs s)"
  by (simp_all add: run_def)

lemma writes_only:
  "list_all is_write ws \<Longrightarrow>
     FlushHeaders \<notin> set ws \<and> Emit n \<notin> set ws \<and> written ws = ws"
  by (induction ws) (auto simp: written_def)

lemma step_other:
  assumes "i \<noteq> Immediate"
  shows "\<exists>es. out (step i s) = out s @ es \<and> FlushHeaders \<notin> set es
            \<and> Emit ''connected'' \<notin> set es
            \<and> (\<not> is_caller i \<longrightarrow> written es = [])"
    and "immediate_pending (step i s) = immediate_pending s"
    and "\<not> calls_id i \<Longrightarrow> lastId (step i s) = lastId s"
proof -
  show "\<exists>es. out (step i s) = out s @ es \<and> FlushHeaders \<notin> set es
            \<and> Emit ''connected'' \<notin> set es
            \<and> (\<not> is_caller i \<longrightarrow> written es = [])"
  proof (cases i)
    case Immediate
    with assms show ?thesis by simp
  next
    case ReqClose
    then show ?thesis by (simp add: written_def)
  next
    case (Caller c)
    from step_Caller_effects [of c s] obtain ws
      where "out (step (Caller c) s) = out s @ ws" "list_all is_write ws" by blast
    then show ?thesis using Caller writes_only [of ws "''connected''"] by auto
  qed
  show "immediate_pending (step i s) = immediate_pending s"
    using assms step_Caller_effects by (cases i) simp_all
  show "lastId (step i s) = lastId s" if "\<not> calls_id i"
    using assms that step_Caller_effects by (cases i) simp_all
qed



lemma step_out_grows: "\<exists>es. out (step i s) = out s @ es \<and> Emit ''connected'' \<notin> set es
    \<or> (i = Immediate \<and> immediate_pending s)"
  using step_other(1) [of i s] by (cases "i = Immediate") (auto simp: step_Immediate_simps(1))

lemma run_quiet:
  assumes "Immediate \<notin> set pre"
  shows "\<exists>es. out (run pre s) = out s @ es \<and> FlushHeaders \<notin> set es
            \<and> Emit ''connected'' \<notin> set es
            \<and> (list_all (\<lambda>i. i = ReqClose) pre \<longrightarrow> written es = [])"
    and "immediate_pending (run pre s) = immediate_pending s"
    and "list_all (\<lambda>i. \<not> calls_id i) pre \<Longrightarrow> lastId (run pre s) = lastId s"
  using assms
proof (induction pre arbitrary: s)
  case Nil
  {
    case 1 show ?case by (simp add: written_def)
  next
    case 2 show ?case by simp
  next
    case 3 show ?case by simp
  }
next
  case (Cons i pre)
  {
    case 1
    then have i: "i \<noteq> Immediate" and p: "Immediate \<notin> set pre" by auto
    from step_other(1) [OF i, of s] obtain es where es: "out (step i s) = out s @ es"
      "FlushHeaders \<notin> set es" "Emit ''connected'' \<notin> set es"
      "\<not> is_caller i \<longrightarrow> written es = []" by blast
    from Cons.IH(1) [OF p, of "step i s"] obtain fs where
      fs: "out (run pre (step i s)) = out (step i s) @ fs"
      "FlushHeaders \<notin> set fs" "Emit ''connected'' \<notin> set fs"
      "list_all (\<lambda>i. i = ReqClose) pre \<longrightarrow> written fs = []" by blast
    have "out (run (i # pre) s) = out s @ (es @ fs)" using es fs by simp
    moreover have "FlushHeaders \<notin> set (es @ fs)" "Emit ''connected'' \<notin> set (es @ fs)"
      using es fs by simp_all
    moreover have "list_all (\<lambda>i. i = ReqClose) (i # pre) \<longrightarrow> written (es @ fs) = []"
      using es(4) fs(4) by (auto simp: written_def)
    ultimately show ?case by blast
  next
    case 2
    then have i: "i \<noteq> Immediate" and p: "Immediate \<notin> set pre" by auto
    show ?case using Cons.IH(2) [OF p, of "step i s"] step_other(2) [OF i, of s] by simp
  next
    case 3
    then have i: "i \<noteq> Immediate" and p: "Immediate \<notin> set pre" 
       and c: "\<not> calls_id i" "list_all (\<lambda>i. \<not> calls_id i) pre" by auto
    show ?case using Cons.IH(3) [OF c(2) p, of "step i s"] step_other(3) [OF i c(1), of s]
      by simp
  }
qed


lemma connect_effects_facts:
  "FlushHeaders \<in> set (header_effects s)"
  "Emit n \<notin> set (header_effects s)"
  "Emit n \<notin> set (retry_effects s)"
  "FlushHeaders \<notin> set (retry_effects s)"
  "written (header_effects s) = []"
  "written (retry_effects s) = retry_effects s"
  by (auto simp: header_effects_def retry_effects_def field_line_def written_def
      filter_empty_conv split: option.splits)

lemma Session_new_simps [simp]:
  "lastId (Session_new f g r p opts) = []"
  "out (Session_new f g r p opts) = []"
  "immediate_pending (Session_new f g r p opts)"
  "random_pos (Session_new f g r p opts) = 0"
  "random_pool (Session_new f g r p opts) = p"
  "req_last_event_id (Session_new f g r p opts) = r"
  "serialize (Session_new f g r p opts) = nullish_default (opt_serializer opts) f"
  "sanitize (Session_new f g r p opts) = nullish_default (opt_sanitizer opts) g"
  "trustClientEventId (Session_new f g r p opts) = nullish_default (opt_trustClientEventId opts) True"
  "initialRetry (Session_new f g r p opts) =
     (case opt_retry opts of RetryNull \<Rightarrow> None | RetryUnset \<Rightarrow> Some 2000 | RetryMs n \<Rightarrow> Some n)"
  "statusCode (Session_new f g r p opts) = nullish_default (opt_statusCode opts) 200"
  "headers (Session_new f g r p opts) = nullish_default (opt_headers opts) []"
  by (simp_all add: Session_new_def)



section \<open>The concrete session and the default sanitizer on plain text\<close>

lemma example_session_simps [simp]:
  "lastId example_session = []"
  "out example_session = []"
  "immediate_pending example_session"
  "random_pos example_session = 0"
  "random_pool example_session = example_pool"
  "req_last_event_id example_session = Some ''42''"
  "serialize example_session = example_serialize"
  "sanitize example_session = sanitize_default"
  "trustClientEventId example_session"
  "initialRetry example_session = Some 2000"
  "statusCode example_session = 200"
  "headers example_session = []"
  by (simp_all add: example_session_def default_options_def nullish_default_def)

lemma sanitize_default_plain:
  "CR \<notin> set t \<Longrightarrow> LF \<notin> set t \<Longrightarrow> sanitize_default t = t"
proof -
  assume a: "CR \<notin> set t" "LF \<notin> set t"
  have r: "CR \<notin> set u \<Longrightarrow> replace_newlines u = u" for u
    by (induction u) auto
  have "dropWhile (\<lambda>c. c = LF) (rev t) = rev t"
    using a(2) by (cases "rev t") (auto simp: dropWhile_eq_self_iff)
  then show ?thesis using r [OF a(1)] by (simp add: sanitize_default_def strip_trailing_newlines_def)
qed

lemma number_toString_0: "number_toString 0 = ''0''"
  by code_simp





lemma example_untrusting_simps [simp]:
  "lastId example_untrusting = []"
  "out example_untrusting = []"
  "immediate_pending example_untrusting"
  "random_pos example_untrusting = 0"
  "random_pool example_untrusting = example_pool"
  "req_last_event_id example_untrusting = Some ''42''"
  "serialize example_untrusting = example_serialize"
  "sanitize example_untrusting = sanitize_default"
  "\<not> trustClientEventId example_untrusting"
  "initialRetry example_untrusting = Some 5000"
  "statusCode example_untrusting = 200"
  "headers example_untrusting = []"
  by (simp_all add: example_untrusting_def default_options_def nullish_default_def)


section \<open>Frame encoder and push\<close>

text \<open>
  C2: writeField writes exactly \<open>name:sanitize(value)\n\<close>, dispatch writes exactly the
  single character \<open>\n\<close>, and comment() with no argument is the field with empty name and
  empty value, which is the line \<open>:\n\<close> when the sanitizer maps the empty string to itself,
  as the default one does.
\<close>

theorem writeField_dispatch_comment_wire:
  "out (writeField name v s) = out s @ [Write (name @ '':'' @ sanitize s v @ [LF])]
   \<and> out (dispatch s) = out s @ [Write [LF]]
   \<and> comment None s = writeField [] [] s
   \<and> (sanitize s [] = [] \<longrightarrow> out (comment None s) = out s @ [Write ('':'' @ [LF])])"
  by (simp add: field_line_def comment_def nullish_default_def)

theorem writeField_dispatch_comment_wire_witness:
  "sanitize example_session [] = []
   \<and> out (comment None example_session) = [Write ('':'' @ [LF])]"
proof -
  have h: "sanitize example_session [] = []"
    by (simp add: sanitize_default_plain)
  from writeField_dispatch_comment_wire [of "[]" "[]" example_session] h
  have "out (comment None example_session) = out example_session @ [Write ('':'' @ [LF])]"
    by blast
  with h show ?thesis by simp
qed

lemma push_arguments_message:
  "truthy x \<Longrightarrow> push_arguments x JUndefined = Inr (''message'', x)"
  by (simp add: push_arguments_def)

lemma push_arguments_named:
  "d \<noteq> JUndefined \<Longrightarrow> js_toString e = Inr name \<Longrightarrow> push_arguments e d = Inr (name, d)"
  by (simp add: push_arguments_def)


text \<open>
  C3: push with the single argument \<open>0\<close>. The argument is falsy, so the first branch is
  not taken: the event is named \<open>0\<close> and its payload is \<open>undefined\<close>, where the claim
  and the doc comment of push say the type \<open>message\<close> and the payload \<open>0\<close>.
\<close>

theorem push_falsy_single_argument:
  "push_arguments (JNum 0) JUndefined = Inr (''0'', JUndefined)
   \<and> (\<exists>s'. push (JNum 0) JUndefined s = Inr s'
          \<and> out s' = out s @ event_frames s ''0'' (random_id s (random_pos s)) JUndefined)"
proof -
  have a: "push_arguments (JNum 0) JUndefined = Inr (''0'', JUndefined)"
    by (simp add: push_arguments_def number_toString_0)
  from push_frames [OF a, of s] a show ?thesis by blast
qed



lemma example_id_0: "random_id example_session 0 = ''0b30557a''"
  by code_simp


section \<open>lastId and the connection lifecycle\<close>

text \<open>
  C5, as the claim states it, fails: after construction lastId is empty, and the deferred
  initialization, which is no call of id, sets it to the request's \<open>last-event-id\<close>.
\<close>

theorem lastId_changed_by_deferred_initialization:
  "lastId example_session = [] \<and> \<not> calls_id Immediate
   \<and> lastId (run [Immediate] example_session) = ''42''"
  by (simp add: step_Immediate_simps(2) nullish_default_def del: step.simps(1))

text \<open>
  C5 (amended): id(null) writes an id field with empty value and sets lastId to the empty
  string; id(x) writes \<open>id:sanitize(x)\n\<close> and sets lastId to the unsanitized x; after
  construction lastId changes only by the deferred initialization (when it is pending and
  trustClientEventId is true) and by calling id, directly or through push.
\<close>

theorem id_sets_lastId:
  "out (id_field None s) = out s @ [Write (''id:'' @ sanitize s [] @ [LF])]
   \<and> lastId (id_field None s) = []
   \<and> out (id_field (Some x) s) = out s @ [Write (''id:'' @ sanitize s x @ [LF])]
   \<and> lastId (id_field (Some x) s) = x
   \<and> (\<not> calls_id i \<and> i \<noteq> Immediate \<longrightarrow> lastId (step i s) = lastId s)
   \<and> lastId (step Immediate s) =
       (if immediate_pending s \<and> trustClientEventId s
        then nullish_default (req_last_event_id s) [] else lastId s)
   \<and> (list_all (\<lambda>i. \<not> calls_id i) ins \<and> Immediate \<notin> set ins
        \<longrightarrow> lastId (run ins s) = lastId s)"
  using step_other(3) [of i s] run_quiet(3) [of ins s]
  by (simp add: field_line_def nullish_default_def step_Immediate_simps(2) del: step.simps(1))

theorem id_sets_lastId_witness:
  "\<not> calls_id ReqClose \<and> ReqClose \<noteq> Immediate
   \<and> lastId (step ReqClose (id_field (Some ''7'') example_session)) = ''7''
   \<and> list_all (\<lambda>i. \<not> calls_id i) [Caller (CComment None), ReqClose, Caller (CData (JNum 1))]
   \<and> Immediate \<notin> set [Caller (CComment None), ReqClose, Caller (CData (JNum 1))]
   \<and> lastId (run [Caller (CComment None), ReqClose, Caller (CData (JNum 1))]
        (id_field (Some ''7'') example_session)) = ''7''"
proof -
  let ?s = "id_field (Some ''7'') example_session"
  let ?ins = "[Caller (CComment None), ReqClose, Caller (CData (JNum 1))]"
  have h: "\<not> calls_id ReqClose \<and> ReqClose \<noteq> Immediate" by simp
  have g: "list_all (\<lambda>i. \<not> calls_id i) ?ins \<and> Immediate \<notin> set ?ins" by simp
  from id_sets_lastId [where s = ?s and i = ReqClose and ins = ?ins] h g
  have "lastId (step ReqClose ?s) = lastId ?s \<and> lastId (run ?ins ?s) = lastId ?s"
    by blast
  moreover from id_sets_lastId [where s = example_session and x = "''7''"]
  have "lastId ?s = ''7''" by blast
  ultimately have "lastId (step ReqClose ?s) = ''7'' \<and> lastId (run ?ins ?s) = ''7''"
    by simp
  with h g show ?thesis by simp
qed





text \<open>
  C10: when the request's close fires before the deferred initialization, disconnected is
  emitted first and the initialization still runs in full: it sets and flushes the
  headers, writes the automatic retry frame (if the initial retry is a number) and emits
  connected, after disconnected.
\<close>

theorem close_before_initialization_still_connects:
  "out (run [ReqClose, Immediate] (Session_new f g r p opts))
     = [Emit ''disconnected''] @ header_effects (Session_new f g r p opts)
       @ retry_effects (Session_new f g r p opts) @ [Emit ''connected'']
   \<and> FlushHeaders \<in> set (header_effects (Session_new f g r p opts))
   \<and> retry_effects (Session_new f g r p opts) =
       (case initialRetry (Session_new f g r p opts) of
          None \<Rightarrow> []
        | Some n \<Rightarrow>
            [Write (''retry:'' @ sanitize (Session_new f g r p opts) (number_toString n) @ [LF]),
             Write [LF]])
   \<and> step Immediate (step ReqClose (Session_new f g r p opts))
       = onConnected ((onDisconnected (Session_new f g r p opts))\<lparr>immediate_pending := False\<rparr>)"
proof -
  let ?s = "Session_new f g r p opts"
  have c: "same_config ?s (onDisconnected ?s)" by simp
  have "out (run [ReqClose, Immediate] ?s)
      = out (onDisconnected ?s) @ header_effects (onDisconnected ?s)
        @ retry_effects (onDisconnected ?s) @ [Emit ''connected'']"
    by (simp add: step_Immediate_simps(1) del: step.simps(1))
  then have a: "out (run [ReqClose, Immediate] ?s)
     = [Emit ''disconnected''] @ header_effects ?s @ retry_effects ?s @ [Emit ''connected'']"
    by (simp add: header_effects_cong [OF c] retry_effects_cong [OF c])
  have b: "retry_effects ?s =
       (case initialRetry ?s of None \<Rightarrow> []
        | Some n \<Rightarrow> [Write (''retry:'' @ sanitize ?s (number_toString n) @ [LF]), Write [LF]])"
    by (simp add: retry_effects_def field_line_def split: option.splits retry_option.splits)
  have d: "step Immediate (step ReqClose ?s)
       = onConnected ((onDisconnected ?s)\<lparr>immediate_pending := False\<rparr>)"
    by simp
  from a b d connect_effects_facts(1) [of ?s] show ?thesis by blast
qed

section \<open>The stream adapter\<close>

lemma stream_frames_cong:
  "same_config s s' \<Longrightarrow> stream_frames s' dec name pos cs = stream_frames s dec name pos cs"
  by (induction cs arbitrary: pos) (simp_all add: event_frames_cong random_id_cong)

lemma stream_frames_append:
  "stream_frames s dec name pos (cs @ ds)
     = stream_frames s dec name pos cs @ stream_frames s dec name (pos + 4 * length cs) ds"
  by (induction cs arbitrary: pos) (simp_all add: add.assoc)

lemma chunks_append: "chunks (xs @ ys) = chunks xs @ chunks ys"
  by (induction xs rule: chunks.induct) simp_all

lemma chunks_no_data: "list_all (\<lambda>ev. \<not> is_data ev) evs \<Longrightarrow> chunks evs = []"
  by (induction evs rule: chunks.induct) simp_all

lemma notify_data:
  "\<exists>s'. notify dec (PData c) st = Inr (st\<lparr>st_session := s'\<rparr>)
     \<and> out s' = out (st_session st)
         @ event_frames (st_session st) (st_event st)
             (random_id (st_session st) (random_pos (st_session st)))
             (JStr (chunk_text dec c))
     \<and> random_pos s' = random_pos (st_session st) + 4
     \<and> same_config (st_session st) s'"
proof -
  have a: "push_arguments (JStr (st_event st)) (JStr (chunk_text dec c))
      = Inr (st_event st, JStr (chunk_text dec c))"
    by (simp add: push_arguments_def)
  from push_frames [OF a, of "st_session st"] show ?thesis by auto
qed

lemma notify_other:
  "\<not> is_data ev \<Longrightarrow> \<exists>st'. notify dec ev st = Inr st' \<and> st_session st' = st_session st
     \<and> st_event st' = st_event st"
  by (cases ev) simp_all

lemma stream_run_append:
  "stream_run dec (xs @ ys) st =
     (case stream_run dec xs st of Inl x \<Rightarrow> Inl x | Inr st' \<Rightarrow> stream_run dec ys st')"
  by (induction xs arbitrary: st) (simp_all split: sum.splits)

lemma stream_run_frames:
  "\<exists>st'. stream_run dec evs st = Inr st'
     \<and> out (st_session st') = out (st_session st)
         @ stream_frames (st_session st) dec (st_event st) (random_pos (st_session st))
             (chunks evs)
     \<and> random_pos (st_session st') = random_pos (st_session st) + 4 * length (chunks evs)
     \<and> st_event st' = st_event st
     \<and> same_config (st_session st) (st_session st')"
proof (induction evs arbitrary: st)
  case Nil
  show ?case by simp
next
  case (Cons ev evs)
  show ?case
  proof (cases ev)
    case (PData c)
    from notify_data [of dec c st] obtain s' where
      n: "notify dec (PData c) st = Inr (st\<lparr>st_session := s'\<rparr>)"
      "out s' = out (st_session st)
         @ event_frames (st_session st) (st_event st)
             (random_id (st_session st) (random_pos (st_session st)))
             (JStr (chunk_text dec c))"
      "random_pos s' = random_pos (st_session st) + 4"
      "same_config (st_session st) s'" by blast
    let ?st1 = "st\<lparr>st_session := s'\<rparr>"
    from Cons.IH [of ?st1] obtain st' where
      r: "stream_run dec evs ?st1 = Inr st'"
      "out (st_session st') = out (st_session ?st1)
         @ stream_frames (st_session ?st1) dec (st_event ?st1) (random_pos (st_session ?st1))
             (chunks evs)"
      "random_pos (st_session st') = random_pos (st_session ?st1) + 4 * length (chunks evs)"
      "st_event st' = st_event ?st1"
      "same_config (st_session ?st1) (st_session st')" by blast
    have "stream_run dec (ev # evs) st = Inr st'" using PData n(1) r(1) by simp
    moreover have "out (st_session st') = out (st_session st)
         @ stream_frames (st_session st) dec (st_event st) (random_pos (st_session st))
             (chunks (ev # evs))"
      using r(2) n(2,3) stream_frames_cong [OF n(4)] by (simp add: PData)
    moreover have "random_pos (st_session st')
        = random_pos (st_session st) + 4 * length (chunks (ev # evs))"
      using r(3) n(3) by (simp add: PData)
    moreover have "st_event st' = st_event st" using r(4) by simp
    moreover have "same_config (st_session st) (st_session st')"
      using same_config_trans [OF n(4)] r(5) by simp
    ultimately show ?thesis by blast
  next
    case PEnd
    then have d: "\<not> is_data ev" "chunks (ev # evs) = chunks evs" by simp_all
    from notify_other [OF d(1), of dec st] obtain st1 where
      n: "notify dec ev st = Inr st1" "st_session st1 = st_session st"
      "st_event st1 = st_event st" by blast
    from Cons.IH [of st1] n show ?thesis by (simp add: d(2))
  next
    case PClose
    then have d: "\<not> is_data ev" "chunks (ev # evs) = chunks evs" by simp_all
    from notify_other [OF d(1), of dec st] obtain st1 where
      n: "notify dec ev st = Inr st1" "st_session st1 = st_session st"
      "st_event st1 = st_event st" by blast
    from Cons.IH [of st1] n show ?thesis by (simp add: d(2))
  next
    case (PError e)
    then have d: "\<not> is_data ev" "chunks (ev # evs) = chunks evs" by simp_all
    from notify_other [OF d(1), of dec st] obtain st1 where
      n: "notify dec ev st = Inr st1" "st_session st1 = st_session st"
      "st_event st1 = st_event st" by blast
    from Cons.IH [of st1] n show ?thesis by (simp add: d(2))
  qed
qed

lemma stream_run_data_only:
  "list_all is_data pre \<Longrightarrow> stream_run dec pre st = Inr st' \<Longrightarrow>
     st_completion st' = st_completion st \<and> end_listener st' = end_listener st
     \<and> close_listener st' = close_listener st \<and> error_listener st' = error_listener st"
proof (induction pre arbitrary: st)
  case Nil
  then show ?case by simp
next
  case (Cons ev pre)
  then obtain c where c: "ev = PData c" by (cases ev) simp_all
  from notify_data [of dec c st] obtain s' where
    n: "notify dec (PData c) st = Inr (st\<lparr>st_session := s'\<rparr>)" by blast
  from Cons.prems have "stream_run dec pre (st\<lparr>st_session := s'\<rparr>) = Inr st'"
    "list_all is_data pre" using c n by simp_all
  from Cons.IH [OF this(2) this(1)] show ?case by simp
qed

lemma notify_settled:
  "st_completion st \<noteq> Pending \<Longrightarrow> notify dec ev st = Inr st' \<Longrightarrow>
     st_completion st' = st_completion st"
  by (cases ev; cases "st_completion st")
    (auto simp: settle_def split: sum.splits if_splits)

lemma stream_run_settled:
  "st_completion st \<noteq> Pending \<Longrightarrow> stream_run dec evs st = Inr st' \<Longrightarrow>
     st_completion st' = st_completion st"
proof (induction evs arbitrary: st)
  case Nil
  then show ?case by simp
next
  case (Cons ev evs)
  from Cons.prems(2) obtain st1 where n: "notify dec ev st = Inr st1"
    "stream_run dec evs st1 = Inr st'" by (auto split: sum.splits)
  from notify_settled [OF Cons.prems(1) n(1)] Cons.IH [of st1] n(2) Cons.prems(1)
  show ?case by simp
qed

lemma stream_simps [simp]:
  "st_session (stream options s) = s"
  "st_event (stream options s) = nullish_default (opt_event options) ''stream''"
  "st_completion (stream options s) = Pending"
  "end_listener (stream options s)"
  "close_listener (stream options s)"
  "error_listener (stream options s)"
  by (simp_all add: stream_def)

lemma stream_run_first_terminal:
  assumes "list_all is_data pre"
  shows "\<exists>st1. stream_run dec (pre @ [t]) (stream options s :: 'e stream_state) = Inr st1
     \<and> st_completion st1 =
         (case t of PData c \<Rightarrow> Pending | PEnd \<Rightarrow> Resolved True | PClose \<Rightarrow> Resolved True
          | PError e \<Rightarrow> Rejected e)"
proof -
  let ?st0 = "stream options s :: 'e stream_state"
  from stream_run_frames [of dec pre ?st0] obtain st where
    p: "stream_run dec pre ?st0 = Inr st" by blast
  from stream_run_data_only [OF assms p] have
    l: "st_completion st = Pending" "end_listener st" "close_listener st" "error_listener st"
    by simp_all
  show ?thesis
  proof (cases t)
    case (PData c)
    from notify_data [of dec c st] obtain s' where
      "notify dec (PData c) st = Inr (st\<lparr>st_session := s'\<rparr>)" by blast
    then show ?thesis using p l PData by (simp add: stream_run_append)
  qed (simp_all add: stream_run_append p l settle_def)
qed

lemma stream_run_after_terminal:
  assumes "list_all is_data pre" "\<not> is_data t"
  shows "\<exists>st1 st'. stream_run dec (pre @ [t]) (stream options s :: 'e stream_state) = Inr st1
     \<and> stream_run dec (pre @ t # post) (stream options s) = Inr st'
     \<and> st_completion st1 = (case t of PError e \<Rightarrow> Rejected e | _ \<Rightarrow> Resolved True)
     \<and> st_completion st' = st_completion st1
     \<and> out (st_session st') = out (st_session st1)
         @ stream_frames s dec (nullish_default (opt_event options) ''stream'')
             (random_pos (st_session st1)) (chunks post)"
proof -
  let ?st0 = "stream options s :: 'e stream_state"
  from stream_run_first_terminal [OF assms(1), of dec t options s] obtain st1 where
    a: "stream_run dec (pre @ [t]) ?st0 = Inr st1"
    "st_completion st1 =
         (case t of PData c \<Rightarrow> Pending | PEnd \<Rightarrow> Resolved True | PClose \<Rightarrow> Resolved True
          | PError e \<Rightarrow> Rejected e)" by blast
  have c1: "st_completion st1 = (case t of PError e \<Rightarrow> Rejected e | _ \<Rightarrow> Resolved True)"
    "st_completion st1 \<noteq> Pending"
    using a(2) assms(2) by (cases t; simp)+
  from stream_run_frames [of dec "pre @ [t]" ?st0] a(1) have
    f1: "st_event st1 = nullish_default (opt_event options) ''stream''"
    "same_config s (st_session st1)" by simp_all
  from stream_run_frames [of dec post st1] obtain st' where
    b: "stream_run dec post st1 = Inr st'"
    "out (st_session st') = out (st_session st1)
         @ stream_frames (st_session st1) dec (st_event st1) (random_pos (st_session st1))
             (chunks post)" by blast
  have r: "stream_run dec (pre @ t # post) ?st0 = Inr st'"
    using stream_run_append [of dec "pre @ [t]" post ?st0] a(1) b(1) by simp
  have "out (st_session st') = out (st_session st1)
         @ stream_frames s dec (nullish_default (opt_event options) ''stream'')
             (random_pos (st_session st1)) (chunks post)"
    using b(2) f1 by (simp add: stream_frames_cong)
  with a(1) r c1(1) stream_run_settled [OF c1(2) b(1)] show ?thesis by blast
qed

lemma example_id_4: "random_id example_session 4 = ''9fc4e90e''"
  by code_simp

lemma example_decode_b: "example_decode [0x62] = ''b''"
  by code_simp

text \<open>
  C8: for every producer, stream pushes one dispatched event per emitted chunk, in the
  order of emission, of the configured type (\<open>stream\<close> if none is given) and carrying the
  chunk's text; it never throws. When the first notification other than data is end or
  close, the completion resolves to true there and stays so whatever follows: the second
  of end and close changes nothing.
\<close>

theorem stream_pushes_chunks_and_resolves:
  "(\<exists>st'. stream_run dec evs (stream options s :: 'e stream_state) = Inr st'
      \<and> out (st_session st') = out s
          @ stream_frames s dec (nullish_default (opt_event options) ''stream'') (random_pos s)
              (chunks evs))
   \<and> (list_all is_data pre \<and> (t = PEnd \<or> t = PClose) \<longrightarrow>
        (\<exists>st1 st'. stream_run dec (pre @ [t]) (stream options s :: 'e stream_state) = Inr st1
           \<and> st_completion st1 = Resolved True
           \<and> stream_run dec (pre @ t # post) (stream options s) = Inr st'
           \<and> st_completion st' = Resolved True
           \<and> (list_all (\<lambda>ev. \<not> is_data ev) post \<longrightarrow>
                out (st_session st') = out (st_session st1))))"
proof -
  let ?st0 = "stream options s :: 'e stream_state"
  from stream_run_frames [of dec evs ?st0]
  have a: "\<exists>st'. stream_run dec evs ?st0 = Inr st'
      \<and> out (st_session st') = out s
          @ stream_frames s dec (nullish_default (opt_event options) ''stream'') (random_pos s)
              (chunks evs)"
    by auto
  have b: "\<exists>st1 st'. stream_run dec (pre @ [t]) ?st0 = Inr st1
           \<and> st_completion st1 = Resolved True
           \<and> stream_run dec (pre @ t # post) ?st0 = Inr st'
           \<and> st_completion st' = Resolved True
           \<and> (list_all (\<lambda>ev. \<not> is_data ev) post \<longrightarrow>
                out (st_session st') = out (st_session st1))"
    if h: "list_all is_data pre" "t = PEnd \<or> t = PClose"
  proof -
    from h(2) have nd: "\<not> is_data t" by auto
    from stream_run_after_terminal [OF h(1) nd, of dec options s post] h(2)
    show ?thesis by (auto simp: chunks_no_data)
  qed
  from a b show ?thesis by blast
qed

theorem stream_pushes_chunks_and_resolves_witness:
  "list_all is_data [PData (StringChunk ''a''), PData (BufferChunk [0x62]) :: string producer_event]
   \<and> ((PEnd :: string producer_event) = PEnd \<or> (PEnd :: string producer_event) = PClose)
   \<and> list_all (\<lambda>ev. \<not> is_data ev) [PClose :: string producer_event]
   \<and> (\<exists>st'. stream_run example_decode
          [PData (StringChunk ''a''), PData (BufferChunk [0x62]), PEnd, PClose]
          (stream \<lparr>opt_event = None\<rparr> example_session :: string stream_state) = Inr st'
        \<and> out (st_session st') =
            [Write (''event:stream'' @ [LF]), Write (''id:0b30557a'' @ [LF]),
             Write (''data:'' @ [CHR 0x22, CHR ''a'', CHR 0x22] @ [LF]), Write [LF],
             Write (''event:stream'' @ [LF]), Write (''id:9fc4e90e'' @ [LF]),
             Write (''data:'' @ [CHR 0x22, CHR ''b'', CHR 0x22] @ [LF]), Write [LF]]
        \<and> st_completion st' = Resolved True)"
proof -
  let ?pre = "[PData (StringChunk ''a''), PData (BufferChunk [0x62])] :: string producer_event list"
  let ?st0 = "stream \<lparr>opt_event = None\<rparr> example_session :: string stream_state"
  have h: "list_all is_data ?pre"
    "(PEnd :: string producer_event) = PEnd \<or> (PEnd :: string producer_event) = PClose"
    "list_all (\<lambda>ev. \<not> is_data ev) [PClose :: string producer_event]" by simp_all
  have s: "sanitize_default ''stream'' = ''stream''"
    "sanitize_default ''0b30557a'' = ''0b30557a''"
    "sanitize_default ''9fc4e90e'' = ''9fc4e90e''"
    "sanitize_default [CHR 0x22, CHR ''a'', CHR 0x22] = [CHR 0x22, CHR ''a'', CHR 0x22]"
    "sanitize_default [CHR 0x22, CHR ''b'', CHR 0x22] = [CHR 0x22, CHR ''b'', CHR 0x22]"
    by (simp_all add: sanitize_default_plain CR_def LF_def)
  note T = stream_pushes_chunks_and_resolves
    [where dec = example_decode and evs = "?pre @ PEnd # [PClose]"
      and options = "\<lparr>opt_event = None\<rparr>" and s = example_session
      and pre = ?pre and t = PEnd and post = "[PClose]"]
  from T [THEN conjunct1] obtain st' where
    a: "stream_run example_decode (?pre @ PEnd # [PClose]) ?st0 = Inr st'"
    "out (st_session st') = out example_session
          @ stream_frames example_session example_decode
              (nullish_default (opt_event \<lparr>opt_event = None\<rparr>) ''stream'')
              (random_pos example_session) (chunks (?pre @ PEnd # [PClose]))"
    by blast
  from T [THEN conjunct2] h(1,2) obtain st'' where
    b: "stream_run example_decode (?pre @ PEnd # [PClose]) ?st0 = Inr st''"
    "st_completion st'' = Resolved True" by blast
  from a(1) b have c: "st_completion st' = Resolved True" by simp
  have o: "out (st_session st') =
            [Write (''event:stream'' @ [LF]), Write (''id:0b30557a'' @ [LF]),
             Write (''data:'' @ [CHR 0x22, CHR ''a'', CHR 0x22] @ [LF]), Write [LF],
             Write (''event:stream'' @ [LF]), Write (''id:9fc4e90e'' @ [LF]),
             Write (''data:'' @ [CHR 0x22, CHR ''b'', CHR 0x22] @ [LF]), Write [LF]]"
    using a(2)
    by (simp add: nullish_default_def event_frames_def field_line_def example_id_0
        example_id_4 example_decode_b chunk_text_def s)
  from a(1) have "stream_run example_decode
          [PData (StringChunk ''a''), PData (BufferChunk [0x62]), PEnd, PClose] ?st0 = Inr st'"
    by simp
  with o c h show ?thesis by blast
qed

text \<open>
  C9, as the claim states it, fails: the \<open>data\<close> listener is never removed, so a chunk
  emitted after the error is still pushed; and an error after end finds the completion
  already resolved.
\<close>

theorem stream_pushes_after_error:
  "stream_completion (stream_run example_decode [PError ''boom'']
      (stream \<lparr>opt_event = None\<rparr> example_session)) = Some (Rejected ''boom'')
   \<and> stream_output (stream_run example_decode [PError ''boom'']
      (stream \<lparr>opt_event = None\<rparr> example_session)) = []
   \<and> stream_output (stream_run example_decode [PError ''boom'', PData (StringChunk ''a'')]
      (stream \<lparr>opt_event = None\<rparr> example_session))
      = [Write (''event:stream'' @ [LF]), Write (''id:0b30557a'' @ [LF]),
         Write (''data:'' @ [CHR 0x22, CHR ''a'', CHR 0x22] @ [LF]), Write [LF]]
   \<and> stream_completion (stream_run example_decode [PEnd, PError ''boom'']
      (stream \<lparr>opt_event = None\<rparr> example_session)) = Some (Resolved True)"
proof -
  let ?st0 = "stream \<lparr>opt_event = None\<rparr> example_session :: string stream_state"
  have a: "push_arguments (JStr ''stream'') (JStr ''a'') = Inr (''stream'', JStr ''a'')"
    by (simp add: push_arguments_def)
  have s: "sanitize_default ''stream'' = ''stream''"
    "sanitize_default ''0b30557a'' = ''0b30557a''"
    "sanitize_default [CHR 0x22, CHR ''a'', CHR 0x22] = [CHR 0x22, CHR ''a'', CHR 0x22]"
    by (simp_all add: sanitize_default_plain CR_def LF_def)
  from stream_run_frames [of example_decode "[PError ''boom'', PData (StringChunk ''a'')]" ?st0]
  have "stream_output (stream_run example_decode [PError ''boom'', PData (StringChunk ''a'')]
      ?st0)
      = [Write (''event:stream'' @ [LF]), Write (''id:0b30557a'' @ [LF]),
         Write (''data:'' @ [CHR 0x22, CHR ''a'', CHR 0x22] @ [LF]), Write [LF]]"
    by (auto simp: stream_output_def nullish_default_def event_frames_def field_line_def
        example_id_0 chunk_text_def s)
  then show ?thesis
    by (simp add: stream_output_def stream_completion_def settle_def)
qed

text \<open>
  C9 (amended): for every producer whose first notification other than data is an error,
  the completion returned by stream rejects with that error value and stays rejected.
  The adapter does not unsubscribe: after the error it still pushes one event for every
  chunk the producer emits, so no chunk event follows the error when the producer emits
  no data after it.
\<close>

theorem stream_rejects_on_first_error:
  "list_all is_data pre \<longrightarrow>
     (\<exists>st1 st'. stream_run dec (pre @ [PError e]) (stream options s :: 'e stream_state) = Inr st1
        \<and> st_completion st1 = Rejected e
        \<and> stream_run dec (pre @ PError e # post) (stream options s) = Inr st'
        \<and> st_completion st' = Rejected e
        \<and> out (st_session st') = out (st_session st1)
            @ stream_frames s dec (nullish_default (opt_event options) ''stream'')
                (random_pos (st_session st1)) (chunks post)
        \<and> (list_all (\<lambda>ev. \<not> is_data ev) post \<longrightarrow>
             out (st_session st') = out (st_session st1)))"
proof
  assume h: "list_all is_data pre"
  have nd: "\<not> is_data (PError e)" by simp
  from stream_run_after_terminal [OF h nd, of dec options s post]
  show "\<exists>st1 st'. stream_run dec (pre @ [PError e]) (stream options s) = Inr st1
        \<and> st_completion st1 = Rejected e
        \<and> stream_run dec (pre @ PError e # post) (stream options s) = Inr st'
        \<and> st_completion st' = Rejected e
        \<and> out (st_session st') = out (st_session st1)
            @ stream_frames s dec (nullish_default (opt_event options) ''stream'')
                (random_pos (st_session st1)) (chunks post)
        \<and> (list_all (\<lambda>ev. \<not> is_data ev) post \<longrightarrow>
             out (st_session st') = out (st_session st1))"
    by (auto simp: chunks_no_data)
qed

theorem stream_rejects_on_first_error_witness:
  "list_all is_data [PData (StringChunk ''a'') :: string producer_event]
   \<and> list_all (\<lambda>ev. \<not> is_data ev) [PClose :: string producer_event]
   \<and> (\<exists>st1 st'. stream_run example_decode ([PData (StringChunk ''a'')] @ [PError ''boom''])
          (stream \<lparr>opt_event = None\<rparr> example_session) = Inr st1
        \<and> st_completion st1 = Rejected ''boom''
        \<and> stream_run example_decode ([PData (StringChunk ''a'')] @ PError ''boom'' # [PClose])
          (stream \<lparr>opt_event = None\<rparr> example_session) = Inr st'
        \<and> st_completion st' = Rejected ''boom''
        \<and> out (st_session st') = out (st_session st1))"
proof -
  have h: "list_all is_data [PData (StringChunk ''a'') :: string producer_event]"
    "list_all (\<lambda>ev. \<not> is_data ev) [PClose :: string producer_event]" by simp_all
  from stream_rejects_on_first_error
    [where pre = "[PData (StringChunk ''a'')]" and e = "''boom''" and post = "[PClose]"
      and dec = example_decode and options = "\<lparr>opt_event = None\<rparr>" and s = example_session]
    h
  show ?thesis by blast
qed

end
